theory Spec2Isabelle
  imports Complex_Main "HOL-Library.Char_ord" "HOL-Library.List_Lexorder"
    "HOL-Library.Code_Target_Numeral"
begin

section \<open>Library primitives used by the ledger\<close>

text \<open>
  The program (\<^verbatim>\<open>Blockchain.py\<close>) calls five library functions: \<^verbatim>\<open>hashlib.sha256\<close>,
  \<^verbatim>\<open>json.dumps\<close>, \<^verbatim>\<open>bytes.fromhex\<close>, \<^verbatim>\<open>round\<close> and \<^verbatim>\<open>time.time\<close>.

  \<^item> A Python \<^verbatim>\<open>str\<close> and a Python \<^verbatim>\<open>bytes\<close> are both \<^typ>\<open>string\<close>: a list of
    8-bit characters (for \<^verbatim>\<open>str\<close>, code points below 256).
  \<^item> A Python \<^verbatim>\<open>float\<close> is a \<^typ>\<open>real\<close>. The two operations the program applies to
    floats, \<^verbatim>\<open>round(x, n)\<close> and the decimal text that \<^verbatim>\<open>json.dumps\<close> prints for a float,
    depend on the binary representation; they are fields of the record \<open>pylib\<close> and every
    definition below takes that record as its first argument. Nothing is assumed of them.
  \<^item> The function from a message to its raw digest, \<^verbatim>\<open>hashlib.sha256(x).digest()\<close>, is a
    field of \<open>pylib\<close> too; \<^verbatim>\<open>hexdigest()\<close> (two lower-case hexadecimal digits per byte)
    is defined.
  \<^item> \<^verbatim>\<open>time.time()\<close> is an input: the functions that read the clock take the value read.
  \<^item> A Python \<^verbatim>\<open>int\<close> is an \<^typ>\<open>int\<close>.
\<close>

datatype py_error = IndexError | ValueError

record pylib =
  sha256_digest :: "string \<Rightarrow> string"
  py_round :: "real \<Rightarrow> int \<Rightarrow> real"
  float_repr :: "real \<Rightarrow> string"

subsection \<open>Hexadecimal text\<close>

definition hex_digit :: "nat \<Rightarrow> char" where
  "hex_digit n = ''0123456789abcdef'' ! (n mod 16)"

definition hexlify :: "string \<Rightarrow> string" where
  "hexlify bs = concat (map (\<lambda>c. [hex_digit (of_char c div 16), hex_digit (of_char c mod 16)]) bs)"

text \<open>\<^verbatim>\<open>_PyLong_DigitValue\<close> restricted to base 16: both letter cases are digits.\<close>

definition hex_value :: "char \<Rightarrow> nat option" where
  "hex_value c =
     (let n = (of_char c :: nat) in
      if 48 \<le> n \<and> n \<le> 57 then Some (n - 48)
      else if 97 \<le> n \<and> n \<le> 102 then Some (n - 87)
      else if 65 \<le> n \<and> n \<le> 70 then Some (n - 55)
      else None)"

text \<open>\<^verbatim>\<open>Py_ISSPACE\<close>: tab, line feed, vertical tab, form feed, carriage return, space.\<close>

definition py_isspace :: "char \<Rightarrow> bool" where
  "py_isspace c = (let n = (of_char c :: nat) in (9 \<le> n \<and> n \<le> 13) \<or> n = 32)"

text \<open>
  \<^verbatim>\<open>bytes.fromhex\<close>: white space before a byte is skipped, then two hexadecimal digits
  are read; anything else raises \<^verbatim>\<open>ValueError\<close>.
\<close>

fun fromhex :: "string \<Rightarrow> py_error + string" where
  "fromhex [] = Inr []"
| "fromhex [c] = (if py_isspace c then Inr [] else Inl ValueError)"
| "fromhex (c # d # cs) =
     (if py_isspace c then fromhex (d # cs)
      else case (hex_value c, hex_value d) of
        (Some hi, Some lo) \<Rightarrow>
          (case fromhex cs of
             Inl e \<Rightarrow> Inl e
           | Inr bs \<Rightarrow> Inr (char_of (16 * hi + lo) # bs))
      | _ \<Rightarrow> Inl ValueError)"

subsection \<open>JSON text\<close>

datatype json = JStr string | JInt int | JFloat real

definition dquote :: char where
  "dquote = CHR 0x22"

definition backslash :: char where
  "backslash = CHR 0x5C"

text \<open>\<^verbatim>\<open>str(n)\<close> for an integer.\<close>

function nat_repr :: "nat \<Rightarrow> string" where
  "nat_repr n =
     (if n < 10 then [char_of (48 + n)]
      else nat_repr (n div 10) @ [char_of (48 + n mod 10)])"
  by pat_completeness auto
termination
  by (relation "measure id") auto

definition int_repr :: "int \<Rightarrow> string" where
  "int_repr i = (if i < 0 then CHR ''-'' # nat_repr (nat (- i)) else nat_repr (nat i))"

text \<open>
  \<^verbatim>\<open>json.encoder.py_encode_basestring_ascii\<close> (the default \<^verbatim>\<open>ensure_ascii=True\<close>): the
  quote and the backslash are escaped, the five control characters with a short form
  take it, and every other character outside the range from space to tilde is written
  as a backslash, the letter u and four hexadecimal digits.
\<close>

definition json_escape_char :: "char \<Rightarrow> string" where
  "json_escape_char c =
     (let n = (of_char c :: nat) in
      if c = dquote then [backslash, dquote]
      else if c = backslash then [backslash, backslash]
      else if n = 8 then [backslash, CHR ''b'']
      else if n = 12 then [backslash, CHR ''f'']
      else if n = 10 then [backslash, CHR ''n'']
      else if n = 13 then [backslash, CHR ''r'']
      else if n = 9 then [backslash, CHR ''t'']
      else if 32 \<le> n \<and> n \<le> 126 then [c]
      else [backslash, CHR ''u'', CHR ''0'', CHR ''0'', hex_digit (n div 16), hex_digit (n mod 16)])"

definition json_str :: "string \<Rightarrow> string" where
  "json_str s = [dquote] @ concat (map json_escape_char s) @ [dquote]"

fun json_value :: "pylib \<Rightarrow> json \<Rightarrow> string" where
  "json_value lib (JStr s) = json_str s"
| "json_value lib (JInt i) = int_repr i"
| "json_value lib (JFloat x) = float_repr lib x"

fun join :: "string \<Rightarrow> string list \<Rightarrow> string" where
  "join sep [] = []"
| "join sep [x] = x"
| "join sep (x # y # ys) = x @ sep @ join sep (y # ys)"

text \<open>
  \<^verbatim>\<open>json.dumps(obj, sort_keys=..., separators=(item, key))\<close> for a dictionary whose
  values are strings and numbers. A dictionary is the list of its items in insertion
  order; its keys are distinct.
\<close>

definition json_dumps :: "pylib \<Rightarrow> (string \<times> json) list \<Rightarrow> bool \<Rightarrow> string \<times> string \<Rightarrow> string" where
  "json_dumps lib obj sort_keys separators =
     (let items = (if sort_keys then sort_key fst obj else obj) in
      ''{'' @ join (fst separators)
                (map (\<lambda>(k, v). json_str k @ snd separators @ json_value lib v) items)
          @ ''}'')"

text \<open>\<^verbatim>\<open>str.encode()\<close>: UTF-8 of code points below 256.\<close>

definition encode :: "string \<Rightarrow> string" where
  "encode s =
     concat (map (\<lambda>c. let n = (of_char c :: nat) in
                       if n < 128 then [c]
                       else [char_of (192 + n div 64), char_of (128 + n mod 64)]) s)"

section \<open>Hash utilities\<close>

definition sha256 :: "pylib \<Rightarrow> string \<Rightarrow> string" where
  "sha256 lib x = hexlify (sha256_digest lib x)"

definition jhash :: "pylib \<Rightarrow> (string \<times> json) list \<Rightarrow> string" where
  "jhash lib obj = sha256 lib (encode (json_dumps lib obj True ('','', '':'')))"

subsection \<open>Merkle root\<close>

text \<open>
  The inner loop \<^verbatim>\<open>for i in range(0, len(layer), 2)\<close> of \<^verbatim>\<open>merkle_root\<close>, from index
  \<open>i\<close> with the hashes collected so far in \<open>nxt\<close>. It is only entered with a layer of even
  length; a read past the end is the \<^verbatim>\<open>IndexError\<close> Python raises.
\<close>

function merkle_pairs :: "pylib \<Rightarrow> string list \<Rightarrow> nat \<Rightarrow> string list \<Rightarrow> py_error + string list" where
  "merkle_pairs lib layer i nxt =
     (if i < length layer then
        (case fromhex (layer ! i) of
           Inl e \<Rightarrow> Inl e
         | Inr l \<Rightarrow>
             if i + 1 < length layer then
               (case fromhex (layer ! (i + 1)) of
                  Inl e \<Rightarrow> Inl e
                | Inr r \<Rightarrow> merkle_pairs lib layer (i + 2) (nxt @ [sha256 lib (l @ r)]))
             else Inl IndexError)
      else Inr nxt)"
  by pat_completeness auto
termination
  by (relation "measure (\<lambda>(lib, layer, i, nxt). length layer - i)") auto

lemma merkle_pairs_length:
  "merkle_pairs lib layer i nxt = Inr r \<Longrightarrow> length r = length nxt + (length layer - i + 1) div 2"
proof (induction lib layer i nxt rule: merkle_pairs.induct)
  case (1 lib layer i nxt)
  show ?case
  proof (cases "i < length layer")
    case False
    with "1.prems" show ?thesis by simp
  next
    case True
    from True "1.prems" obtain l where l: "fromhex (layer ! i) = Inr l"
      by (cases "fromhex (layer ! i)") simp_all
    from True l "1.prems" have i1: "i + 1 < length layer"
      by (cases "i + 1 < length layer") simp_all
    from True l i1 "1.prems" obtain r' where r': "fromhex (layer ! (i + 1)) = Inr r'"
      by (cases "fromhex (layer ! (i + 1))") simp_all
    from True l i1 r' "1.prems"
    have "merkle_pairs lib layer (i + 2) (nxt @ [sha256 lib (l @ r')]) = Inr r"
      by simp
    from "1.IH" [OF True l i1 r' this] i1 show ?thesis
      by simp
  qed
qed

text \<open>The outer loop \<^verbatim>\<open>while len(layer) > 1\<close>, and the final \<^verbatim>\<open>return layer[0]\<close>.\<close>

function merkle_layers :: "pylib \<Rightarrow> string list \<Rightarrow> py_error + string" where
  "merkle_layers lib layer =
     (if length layer > 1 then
        (let layer' = (if length layer mod 2 = 1 then layer @ [last layer] else layer) in
         case merkle_pairs lib layer' 0 [] of
           Inl e \<Rightarrow> Inl e
         | Inr nxt \<Rightarrow> merkle_layers lib nxt)
      else (case layer of [] \<Rightarrow> Inl IndexError | h # _ \<Rightarrow> Inr h))"
  by pat_completeness auto
termination
proof (relation "measure (\<lambda>(lib, layer). length layer)")
  show "wf (measure (\<lambda>(lib, layer). length layer))"
    by simp
next
  fix lib :: pylib and layer layer' nxt :: "string list"
  assume big: "1 < length layer"
    and pad: "layer' = (if length layer mod 2 = 1 then layer @ [last layer] else layer)"
    and run: "merkle_pairs lib layer' 0 [] = Inr nxt"
  from merkle_pairs_length [OF run] have "length nxt = (length layer' + 1) div 2"
    by simp
  with big pad have "length nxt < length layer"
    by (simp split: if_splits) arith+
  then show "((lib, nxt), (lib, layer)) \<in> measure (\<lambda>(lib, layer). length layer)"
    by simp
qed

definition merkle_root :: "pylib \<Rightarrow> string list \<Rightarrow> py_error + string" where
  "merkle_root lib hashes =
     (if hashes = [] then Inr (sha256 lib [])
      else merkle_layers lib hashes)"

definition DIFFICULTY_PREFIX :: string where
  "DIFFICULTY_PREFIX = ''00000''"

definition startswith :: "string \<Rightarrow> string \<Rightarrow> bool" where
  "startswith s p = (take (length p) s = p)"

section \<open>Transactions and blocks\<close>

record Transaction =
  sender :: string
  recipient :: string
  amount :: real

text \<open>\<^verbatim>\<open>asdict(self)\<close> lists the fields in declaration order.\<close>

definition asdict :: "Transaction \<Rightarrow> (string \<times> json) list" where
  "asdict t =
     [(''sender'', JStr (sender t)), (''recipient'', JStr (recipient t)),
      (''amount'', JFloat (amount t))]"

definition Transaction_hash :: "pylib \<Rightarrow> Transaction \<Rightarrow> string" where
  "Transaction_hash lib t = jhash lib (asdict t)"

text \<open>
  The field \<^verbatim>\<open>Block.merkle_root\<close> is \<open>merkle_root_field\<close>: the function of that name is
  \<^const>\<open>merkle_root\<close>.
\<close>

record Block =
  index :: int
  timestamp :: real
  prev_hash :: string
  merkle_root_field :: string
  nonce :: int
  transactions :: "Transaction list"

definition header_dict :: "pylib \<Rightarrow> Block \<Rightarrow> (string \<times> json) list" where
  "header_dict lib b =
     [(''index'', JInt (index b)),
      (''timestamp'', JFloat (py_round lib (timestamp b) 6)),
      (''prev_hash'', JStr (prev_hash b)),
      (''merkle_root'', JStr (merkle_root_field b)),
      (''nonce'', JInt (nonce b))]"

definition Block_hash :: "pylib \<Rightarrow> Block \<Rightarrow> string" where
  "Block_hash lib b = jhash lib (header_dict lib b)"

section \<open>The ledger\<close>

record Blockchain =
  chain :: "Block list"
  mem_pool :: "Transaction list"

text \<open>
  \<^verbatim>\<open>create_genesis\<close>; \<open>now\<close> is the value of \<^verbatim>\<open>time.time()\<close>. The hash of a transaction is
  a \<^verbatim>\<open>hexdigest\<close>, but \<^const>\<open>merkle_root\<close> may raise on other text, so the error branch is
  part of the model.
\<close>

definition create_genesis :: "pylib \<Rightarrow> real \<Rightarrow> Blockchain \<Rightarrow> py_error + Blockchain" where
  "create_genesis lib now bc =
     (let genesis_tx = \<lparr>sender = ''network'', recipient = ''satoshi'', amount = 50.0\<rparr> in
      case merkle_root lib [Transaction_hash lib genesis_tx] of
        Inl e \<Rightarrow> Inl e
      | Inr mroot \<Rightarrow>
          let genesis = \<lparr>index = 0, timestamp = now, prev_hash = replicate 64 CHR ''0'',
                         merkle_root_field = mroot, nonce = 0, transactions = [genesis_tx]\<rparr>
          in Inr (bc\<lparr>chain := chain bc @ [genesis]\<rparr>))"

text \<open>\<^verbatim>\<open>Blockchain.__init__\<close>.\<close>

definition Blockchain_init :: "pylib \<Rightarrow> real \<Rightarrow> py_error + Blockchain" where
  "Blockchain_init lib now = create_genesis lib now \<lparr>chain = [], mem_pool = []\<rparr>"

text \<open>\<^verbatim>\<open>self.chain[-1]\<close> raises \<^verbatim>\<open>IndexError\<close> on an empty chain.\<close>

definition last_block :: "Blockchain \<Rightarrow> py_error + Block" where
  "last_block bc = (if chain bc = [] then Inl IndexError else Inr (last (chain bc)))"

definition add_transaction :: "string \<Rightarrow> string \<Rightarrow> real \<Rightarrow> Blockchain \<Rightarrow> Blockchain" where
  "add_transaction s r a bc =
     bc\<lparr>mem_pool := mem_pool bc @ [\<lparr>sender = s, recipient = r, amount = a\<rparr>]\<rparr>"

text \<open>
  The loop \<^verbatim>\<open>for n in range(max_tries)\<close> of \<^verbatim>\<open>mine\<close>, from candidate \<open>n\<close>: the result is
  the block returned and the ledger after the call.
\<close>

function mine_loop :: "pylib \<Rightarrow> Block \<Rightarrow> int \<Rightarrow> int \<Rightarrow> Blockchain \<Rightarrow> Block option \<times> Blockchain" where
  "mine_loop lib block n max_tries bc =
     (if n < max_tries then
        (let block' = block\<lparr>nonce := n\<rparr>;
             h = Block_hash lib block'
         in if startswith h DIFFICULTY_PREFIX
            then (Some block', bc\<lparr>chain := chain bc @ [block'], mem_pool := []\<rparr>)
            else mine_loop lib block' (n + 1) max_tries bc)
      else (None, bc))"
  by pat_completeness auto
termination
  by (relation "measure (\<lambda>(lib, block, n, max_tries, bc). nat (max_tries - n))") auto

definition mine :: "pylib \<Rightarrow> real \<Rightarrow> string \<Rightarrow> int \<Rightarrow> Blockchain \<Rightarrow> py_error + (Block option \<times> Blockchain)" where
  "mine lib now miner_address max_tries bc =
     (let reward_tx = \<lparr>sender = ''network'', recipient = miner_address, amount = 6.25\<rparr>;
          txs = [reward_tx] @ mem_pool bc;
          tx_hashes = map (Transaction_hash lib) txs
      in case merkle_root lib tx_hashes of
           Inl e \<Rightarrow> Inl e
         | Inr mroot \<Rightarrow>
             (case last_block bc of
                Inl e \<Rightarrow> Inl e
              | Inr lb \<Rightarrow>
                  let block = \<lparr>index = int (length (chain bc)), timestamp = now,
                               prev_hash = Block_hash lib lb, merkle_root_field = mroot,
                               nonce = 0, transactions = txs\<rparr>
                  in Inr (mine_loop lib block 0 max_tries bc)))"

text \<open>
  The loop \<^verbatim>\<open>for i in range(1, len(self.chain))\<close> of \<^verbatim>\<open>valid_chain\<close>, from index \<open>i\<close>.
\<close>

function valid_loop :: "pylib \<Rightarrow> Blockchain \<Rightarrow> nat \<Rightarrow> py_error + bool" where
  "valid_loop lib bc i =
     (if i < length (chain bc) then
        (let b = chain bc ! i;
             prev = chain bc ! (i - 1)
         in if prev_hash b \<noteq> Block_hash lib prev then Inr False
            else if \<not> startswith (Block_hash lib b) DIFFICULTY_PREFIX then Inr False
            else case merkle_root lib (map (Transaction_hash lib) (transactions b)) of
                   Inl e \<Rightarrow> Inl e
                 | Inr calc_root \<Rightarrow>
                     if calc_root \<noteq> merkle_root_field b then Inr False
                     else valid_loop lib bc (i + 1))
      else Inr True)"
  by pat_completeness auto
termination
  by (relation "measure (\<lambda>(lib, bc, i). length (chain bc) - i)") auto

definition valid_chain :: "pylib \<Rightarrow> Blockchain \<Rightarrow> py_error + bool" where
  "valid_chain lib bc = valid_loop lib bc 1"

section \<open>Reachable ledgers\<close>

text \<open>
  The ledgers a caller can obtain: construction, then \<^verbatim>\<open>add_transaction\<close> and \<^verbatim>\<open>mine\<close>
  in any order, whatever the clock reads and whatever the arguments are. A call of
  \<^verbatim>\<open>mine\<close> that exhausts its attempts is a step too (it leaves the ledger as it was).
\<close>

inductive reachable :: "pylib \<Rightarrow> Blockchain \<Rightarrow> bool" for lib :: pylib where
  construct: "Blockchain_init lib now = Inr bc \<Longrightarrow> reachable lib bc"
| submit: "reachable lib bc \<Longrightarrow> reachable lib (add_transaction s r a bc)"
| mined: "reachable lib bc \<Longrightarrow> mine lib now miner_address max_tries bc = Inr (res, bc')
          \<Longrightarrow> reachable lib bc'"

section \<open>The checks of one block, and of one candidate nonce\<close>

text \<open>
  The three tests \<^verbatim>\<open>valid_chain\<close> makes at index \<open>i\<close> (linkage, proof of work, Merkle
  root), and the test \<^verbatim>\<open>mine\<close> makes of the candidate block with nonce \<open>m\<close>.
\<close>

definition block_ok :: "pylib \<Rightarrow> Block list \<Rightarrow> nat \<Rightarrow> bool" where
  "block_ok lib ch i =
     (prev_hash (ch ! i) = Block_hash lib (ch ! (i - 1)) \<and>
      startswith (Block_hash lib (ch ! i)) DIFFICULTY_PREFIX \<and>
      merkle_root lib (map (Transaction_hash lib) (transactions (ch ! i)))
        = Inr (merkle_root_field (ch ! i)))"

definition pow_ok :: "pylib \<Rightarrow> Block \<Rightarrow> int \<Rightarrow> bool" where
  "pow_ok lib block m = startswith (Block_hash lib (block\<lparr>nonce := m\<rparr>)) DIFFICULTY_PREFIX"

section \<open>The Merkle root as the specification words it\<close>

text \<open>
  The reduction of one layer: each adjacent pair (left, right) is replaced by the digest
  of the concatenation of the bytes the two hexadecimal texts decode to. A layer has
  even length when it is reduced, so the last equation is for the end of the layer.
\<close>

fun pair_digests :: "pylib \<Rightarrow> string list \<Rightarrow> py_error + string list" where
  "pair_digests lib (left # right # rest) =
     (case fromhex left of
        Inl e \<Rightarrow> Inl e
      | Inr l \<Rightarrow>
          (case fromhex right of
             Inl e \<Rightarrow> Inl e
           | Inr r \<Rightarrow>
               (case pair_digests lib rest of
                  Inl e \<Rightarrow> Inl e
                | Inr ds \<Rightarrow> Inr (sha256 lib (l @ r) # ds))))"
| "pair_digests lib _ = Inr []"

lemma pair_digests_length:
  "pair_digests lib xs = Inr ds \<Longrightarrow> length ds = length xs div 2"
  by (induction lib xs arbitrary: ds rule: pair_digests.induct)
     (auto split: sum.splits)

text \<open>
  Empty input: the digest of the empty byte sequence. One digest: that digest. Otherwise
  the last element is duplicated when the length is odd, the layer is reduced, and the
  same is done with the result until one digest remains.
\<close>

function merkleRoot_spec :: "pylib \<Rightarrow> string list \<Rightarrow> py_error + string" where
  "merkleRoot_spec lib [] = Inr (sha256 lib [])"
| "merkleRoot_spec lib [h] = Inr h"
| "merkleRoot_spec lib (h # h' # hs) =
     (let layer = h # h' # hs;
          padded = (if odd (length layer) then layer @ [last layer] else layer)
      in case pair_digests lib padded of
           Inl e \<Rightarrow> Inl e
         | Inr nxt \<Rightarrow> merkleRoot_spec lib nxt)"
  by pat_completeness auto
termination
proof (relation "measure (\<lambda>(lib, layer). length layer)")
  show "wf (measure (\<lambda>(lib, layer). length layer))"
    by simp
next
  fix lib :: pylib and h h' :: string and hs layer padded nxt :: "string list"
  assume layer: "layer = h # h' # hs"
    and pad: "padded = (if odd (length layer) then layer @ [last layer] else layer)"
    and run: "pair_digests lib padded = Inr nxt"
  from pair_digests_length [OF run] pad layer have "length nxt < length layer"
    by (simp split: if_splits)
  with layer show "((lib, nxt), (lib, h # h' # hs)) \<in> measure (\<lambda>(lib, layer). length layer)"
    by simp
qed

section \<open>A small library instance for running the definitions\<close>

text \<open>
  The instance below stands in for the three library functions so that the definitions
  can be run on concrete ledgers. Its digest is four copies of the byte sum modulo 3, so
  about one header in three passes the difficulty test; its \<open>py_round\<close> rounds to the
  nearest multiple of \<open>10\<^sup>-\<^sup>n\<close>; its \<open>float_repr\<close> prints the integer part.
\<close>

definition demo_digest :: "string \<Rightarrow> string" where
  "demo_digest x = replicate 4 (char_of (sum_list (map of_char x) mod 3 :: nat))"

definition demo_lib :: pylib where
  "demo_lib =
     \<lparr>sha256_digest = demo_digest,
      py_round = (\<lambda>x n. of_int (round (x * 10 ^ nat n)) / 10 ^ nat n),
      float_repr = (\<lambda>x. int_repr \<lfloor>x\<rfloor>)\<rparr>"

text \<open>
  A run with that instance: construction when the clock reads 1700000000, two submitted
  transactions, and \<^verbatim>\<open>mine("miner1", 10)\<close> when the clock reads 1700000060, which
  succeeds at nonce 2.
\<close>

definition demo_genesis :: Block where
  "demo_genesis =
     \<lparr>index = 0, timestamp = 1700000000, prev_hash = replicate 64 CHR ''0'',
      merkle_root_field = ''01010101'', nonce = 0,
      transactions = [\<lparr>sender = ''network'', recipient = ''satoshi'', amount = 50.0\<rparr>]\<rparr>"

definition demo_pool :: "Transaction list" where
  "demo_pool =
     [\<lparr>sender = ''Alice'', recipient = ''Bob'', amount = 1.2\<rparr>,
      \<lparr>sender = ''Carol'', recipient = ''Dave'', amount = 0.7\<rparr>]"

definition demo_block1 :: Block where
  "demo_block1 =
     \<lparr>index = 1, timestamp = 1700000060, prev_hash = ''02020202'',
      merkle_root_field = ''00000000'', nonce = 2,
      transactions = \<lparr>sender = ''network'', recipient = ''miner1'', amount = 6.25\<rparr> # demo_pool\<rparr>"

definition demo_bc0 :: Blockchain where
  "demo_bc0 = \<lparr>chain = [demo_genesis], mem_pool = []\<rparr>"

definition demo_bc1 :: Blockchain where
  "demo_bc1 = \<lparr>chain = [demo_genesis], mem_pool = demo_pool\<rparr>"

definition demo_bc2 :: Blockchain where
  "demo_bc2 = \<lparr>chain = [demo_genesis, demo_block1], mem_pool = []\<rparr>"


declare nat_repr.simps [simp del]
declare merkle_pairs.simps [simp del]
declare merkle_layers.simps [simp del]
declare mine_loop.simps [simp del]
declare valid_loop.simps [simp del]

section \<open>Decoding a digest, and the Merkle loops\<close>

lemma hex_digit_table:
  "list_all (\<lambda>k. hex_value (hex_digit k) = Some k \<and> \<not> py_isspace (hex_digit k)) [0..<16]"
  by code_simp

lemma hex_digit_value:
  assumes "k < 16"
  shows "hex_value (hex_digit k) = Some k" and "\<not> py_isspace (hex_digit k)"
proof -
  from assms have "k \<in> set [0..<16]"
    by simp
  with hex_digit_table
  have "hex_value (hex_digit k) = Some k \<and> \<not> py_isspace (hex_digit k)"
    unfolding list_all_iff by blast
  then show "hex_value (hex_digit k) = Some k" and "\<not> py_isspace (hex_digit k)"
    by simp_all
qed

lemma of_char_div_16: "(of_char c :: nat) div 16 < 16"
proof -
  have "(of_char c :: nat) < 256"
    by (rule nat_of_char_less_256)
  then show ?thesis
    by presburger
qed

lemma fromhex_hexlify: "fromhex (hexlify bs) = Inr bs"
proof (induction bs)
  case Nil
  show ?case
    by (simp add: hexlify_def)
next
  case (Cons c cs)
  let ?n = "of_char c :: nat"
  have split: "hexlify (c # cs) = hex_digit (?n div 16) # hex_digit (?n mod 16) # hexlify cs"
    by (simp add: hexlify_def)
  have rejoin: "char_of (16 * (?n div 16) + ?n mod 16) = c"
    by simp
  from Cons.IH show ?case
    by (simp add: split hex_digit_value of_char_div_16 rejoin)
qed

lemma merkle_pairs_eq:
  "even (length layer - i) \<Longrightarrow>
   merkle_pairs lib layer i nxt =
     (case pair_digests lib (drop i layer) of Inl e \<Rightarrow> Inl e | Inr ds \<Rightarrow> Inr (nxt @ ds))"
proof (induction lib layer i nxt rule: merkle_pairs.induct)
  case (1 lib layer i nxt)
  show ?case
  proof (cases "i < length layer")
    case False
    then show ?thesis
      by (simp add: merkle_pairs.simps [of lib layer i nxt])
  next
    case True
    have "odd (Suc 0)"
      by simp
    with "1.prems" have "length layer - i \<noteq> Suc 0"
      by metis
    with True have i1: "i + 1 < length layer"
      by arith
    have d: "drop i layer = layer ! i # layer ! (i + 1) # drop (i + 2) layer"
      using True i1 by (metis Cons_nth_drop_Suc Suc_eq_plus1 add_2_eq_Suc')
    from "1.prems" i1 have ev: "even (length layer - (i + 2))"
      by simp
    show ?thesis
    proof (cases "fromhex (layer ! i)")
      case (Inl e)
      with True show ?thesis
        by (simp add: merkle_pairs.simps [of lib layer i nxt] d)
    next
      case l: (Inr l)
      show ?thesis
      proof (cases "fromhex (layer ! (i + 1))")
        case (Inl e)
        with True i1 l show ?thesis
          by (simp add: merkle_pairs.simps [of lib layer i nxt] d)
      next
        case r: (Inr r)
        from "1.IH" [OF True l i1 r ev] True i1 l r show ?thesis
          by (simp add: merkle_pairs.simps [of lib layer i nxt] d split: sum.splits)
      qed
    qed
  qed
qed

lemma merkle_layers_spec:
  "layer \<noteq> [] \<Longrightarrow> merkle_layers lib layer = merkleRoot_spec lib layer"
proof (induction lib layer rule: merkleRoot_spec.induct)
  case (1 lib)
  then show ?case by simp
next
  case (2 lib h)
  show ?case
    by (simp add: merkle_layers.simps [of lib "[h]"])
next
  case (3 lib h h' hs)
  let ?layer = "h # h' # hs"
  define padded where "padded = (if odd (length ?layer) then ?layer @ [last ?layer] else ?layer)"
  have ev: "even (length padded - 0)"
    by (simp add: padded_def)
  have long: "2 \<le> length padded"
    by (simp add: padded_def)
  have run: "merkle_pairs lib padded 0 [] =
      (case pair_digests lib padded of Inl e \<Rightarrow> Inl e | Inr ds \<Rightarrow> Inr ds)"
    using merkle_pairs_eq [OF ev, of lib "[]"] by (simp split: sum.splits)
  have pad: "(if length ?layer mod 2 = 1 then ?layer @ [last ?layer] else ?layer) = padded"
    unfolding padded_def odd_iff_mod_2_eq_one ..
  have src: "merkle_layers lib ?layer =
      (case merkle_pairs lib padded 0 [] of Inl e \<Rightarrow> Inl e | Inr nxt \<Rightarrow> merkle_layers lib nxt)"
    unfolding merkle_layers.simps [of lib ?layer] pad Let_def by simp
  have spc: "merkleRoot_spec lib ?layer =
      (case pair_digests lib padded of Inl e \<Rightarrow> Inl e | Inr nxt \<Rightarrow> merkleRoot_spec lib nxt)"
    unfolding merkleRoot_spec.simps padded_def Let_def ..
  show ?case
  proof (cases "pair_digests lib padded")
    case (Inl e)
    with run src spc show ?thesis
      by simp
  next
    case (Inr nxt)
    from pair_digests_length [OF Inr] long have "nxt \<noteq> []"
      by auto
    from "3.IH" [OF refl padded_def Inr this] Inr run src spc show ?thesis
      by simp
  qed
qed

section \<open>Facts about the ledger operations\<close>

subsection \<open>The Merkle root of digests never raises\<close>

lemma fromhex_sha256: "fromhex (sha256 lib x) = Inr (sha256_digest lib x)"
  by (simp add: sha256_def fromhex_hexlify)

lemma pair_digests_total:
  "set xs \<subseteq> range (sha256 lib) \<Longrightarrow>
   \<exists>ds. pair_digests lib xs = Inr ds \<and> set ds \<subseteq> range (sha256 lib)"
proof (induction lib xs rule: pair_digests.induct)
  case (1 lib left right rest)
  from "1.prems" obtain x y where xy: "left = sha256 lib x" "right = sha256 lib y"
    by auto
  from "1.prems" have "set rest \<subseteq> range (sha256 lib)"
    by simp
  with "1.IH" [of "sha256_digest lib x" "sha256_digest lib y"] xy
  obtain ds where "pair_digests lib rest = Inr ds" "set ds \<subseteq> range (sha256 lib)"
    by (auto simp: fromhex_sha256)
  with xy show ?case
    by (simp add: fromhex_sha256)
qed simp_all

lemma merkleRoot_spec_total:
  "set hs \<subseteq> range (sha256 lib) \<Longrightarrow> \<exists>r. merkleRoot_spec lib hs = Inr r"
proof (induction lib hs rule: merkleRoot_spec.induct)
  case (3 lib h h' hs)
  let ?layer = "h # h' # hs"
  define padded where "padded = (if odd (length ?layer) then ?layer @ [last ?layer] else ?layer)"
  from "3.prems" have "set padded \<subseteq> range (sha256 lib)"
    by (auto simp: padded_def)
  from pair_digests_total [OF this]
  obtain nxt where nxt: "pair_digests lib padded = Inr nxt" "set nxt \<subseteq> range (sha256 lib)"
    by blast
  from "3.IH" [OF refl padded_def nxt] obtain r where "merkleRoot_spec lib nxt = Inr r"
    by blast
  with nxt(1) have "merkleRoot_spec lib ?layer = Inr r"
    unfolding merkleRoot_spec.simps Let_def padded_def [symmetric] by simp
  then show ?case
    by blast
qed simp_all

lemma Transaction_hash_range: "Transaction_hash lib t \<in> range (sha256 lib)"
  by (simp add: Transaction_hash_def jhash_def)

lemma merkle_root_tx_total:
  "\<exists>r. merkle_root lib (map (Transaction_hash lib) txs) = Inr r"
proof -
  have "set (map (Transaction_hash lib) txs) \<subseteq> range (sha256 lib)"
    using Transaction_hash_range by auto
  from merkleRoot_spec_total [OF this] show ?thesis
    by (cases "txs = []") (simp_all add: merkle_root_def merkle_layers_spec)
qed

lemma merkle_root_single: "merkle_root lib [h] = Inr h"
  by (simp add: merkle_root_def merkle_layers.simps [of lib "[h]"])

subsection \<open>The validation loop\<close>

lemma valid_loop_step:
  "i < length (chain bc) \<Longrightarrow>
   valid_loop lib bc i =
     (if block_ok lib (chain bc) i then valid_loop lib bc (i + 1) else Inr False)"
proof -
  assume i: "i < length (chain bc)"
  obtain r where r: "merkle_root lib (map (Transaction_hash lib) (transactions (chain bc ! i))) = Inr r"
    using merkle_root_tx_total by blast
  from i r show ?thesis
    by (simp add: valid_loop.simps [of lib bc i] block_ok_def Let_def)
qed

lemma valid_loop_iff:
  "valid_loop lib bc i = Inr (\<forall>j. i \<le> j \<and> j < length (chain bc) \<longrightarrow> block_ok lib (chain bc) j)"
proof (induction lib bc i rule: valid_loop.induct)
  case (1 lib bc i)
  show ?case
  proof (cases "i < length (chain bc)")
    case False
    then have "\<forall>j. i \<le> j \<and> j < length (chain bc) \<longrightarrow> block_ok lib (chain bc) j"
      by auto
    with False show ?thesis
      by (simp add: valid_loop.simps [of lib bc i])
  next
    case True
    show ?thesis
    proof (cases "block_ok lib (chain bc) i")
      case False
      with True show ?thesis
        by (auto simp: valid_loop_step)
    next
      case ok: True
      obtain r where r: "merkle_root lib (map (Transaction_hash lib) (transactions (chain bc ! i))) = Inr r"
        using merkle_root_tx_total by blast
      from ok r have eq: "r = merkle_root_field (chain bc ! i)"
        by (simp add: block_ok_def)
      from ok have a: "\<not> prev_hash (chain bc ! i) \<noteq> Block_hash lib (chain bc ! (i - 1))"
        and b: "\<not> \<not> startswith (Block_hash lib (chain bc ! i)) DIFFICULTY_PREFIX"
        by (simp_all add: block_ok_def)
      from eq have c: "\<not> r \<noteq> merkle_root_field (chain bc ! i)"
        by simp
      have "valid_loop lib bc (i + 1) =
          Inr (\<forall>j. i + 1 \<le> j \<and> j < length (chain bc) \<longrightarrow> block_ok lib (chain bc) j)"
        by (rule "1.IH" [OF True refl refl a b r c])
      moreover have "(\<forall>j. i + 1 \<le> j \<and> j < length (chain bc) \<longrightarrow> block_ok lib (chain bc) j)
          = (\<forall>j. i \<le> j \<and> j < length (chain bc) \<longrightarrow> block_ok lib (chain bc) j)"
        using ok by (metis Suc_eq_plus1 Suc_leI le_neq_implies_less order.trans le_add1)
      ultimately show ?thesis
        using True ok by (simp add: valid_loop_step)
    qed
  qed
qed

lemma valid_chain_iff:
  "valid_chain lib bc = Inr (\<forall>j. 1 \<le> j \<and> j < length (chain bc) \<longrightarrow> block_ok lib (chain bc) j)"
  by (simp add: valid_chain_def valid_loop_iff)

subsection \<open>The proof-of-work loop\<close>

lemma mine_loop_result:
  "mine_loop lib block n max_tries bc = (res, bc') \<Longrightarrow>
   (case res of
      Some b \<Rightarrow> n \<le> nonce b \<and> nonce b < max_tries \<and> b = block\<lparr>nonce := nonce b\<rparr> \<and>
                pow_ok lib block (nonce b) \<and>
                (\<forall>m. n \<le> m \<and> m < nonce b \<longrightarrow> \<not> pow_ok lib block m) \<and>
                bc' = bc\<lparr>chain := chain bc @ [b], mem_pool := []\<rparr>
    | None \<Rightarrow> (\<forall>m. n \<le> m \<and> m < max_tries \<longrightarrow> \<not> pow_ok lib block m) \<and> bc' = bc)"
proof (induction lib block n max_tries bc rule: mine_loop.induct)
  case (1 lib block n max_tries bc)
  show ?case
  proof (cases "n < max_tries")
    case False
    then have "\<forall>m. n \<le> m \<and> m < max_tries \<longrightarrow> \<not> pow_ok lib block m"
      by auto
    with False "1.prems" show ?thesis
      by (auto simp: mine_loop.simps [of lib block n max_tries bc])
  next
    case True
    show ?thesis
    proof (cases "pow_ok lib block n")
      case ok: True
      with True "1.prems" show ?thesis
        by (auto simp: mine_loop.simps [of lib block n max_tries bc] pow_ok_def Let_def)
    next
      case no: False
      with True "1.prems"
      have rec: "mine_loop lib (block\<lparr>nonce := n\<rparr>) (n + 1) max_tries bc = (res, bc')"
        by (simp add: mine_loop.simps [of lib block n max_tries bc] pow_ok_def Let_def)
      from no have no': "\<not> startswith (Block_hash lib (block\<lparr>nonce := n\<rparr>)) DIFFICULTY_PREFIX"
        by (simp add: pow_ok_def)
      have same: "\<And>m. pow_ok lib (block\<lparr>nonce := n\<rparr>) m = pow_ok lib block m"
        by (simp add: pow_ok_def)
      have step: "\<And>m. (n \<le> m) = (m = n \<or> n + 1 \<le> m)"
        by arith
      from "1.IH" [OF True refl refl no' rec] no show ?thesis
        by (cases res) (auto simp: same step)
    qed
  qed
qed

subsection \<open>Construction and mining\<close>

lemma Blockchain_init_eq:
  "Blockchain_init lib now =
     Inr \<lparr>chain = [\<lparr>index = 0, timestamp = now, prev_hash = replicate 64 CHR ''0'',
                     merkle_root_field =
                       Transaction_hash lib
                         \<lparr>sender = ''network'', recipient = ''satoshi'', amount = 50.0\<rparr>,
                     nonce = 0,
                     transactions =
                       [\<lparr>sender = ''network'', recipient = ''satoshi'', amount = 50.0\<rparr>]\<rparr>],
          mem_pool = []\<rparr>"
  by (simp add: Blockchain_init_def create_genesis_def merkle_root_single Let_def)

lemma mine_eq:
  assumes "chain bc \<noteq> []"
    and "merkle_root lib (map (Transaction_hash lib)
           (\<lparr>sender = ''network'', recipient = miner_address, amount = 6.25\<rparr> # mem_pool bc)) = Inr r"
  shows "mine lib now miner_address max_tries bc =
     Inr (mine_loop lib
            \<lparr>index = int (length (chain bc)), timestamp = now,
               prev_hash = Block_hash lib (last (chain bc)), merkle_root_field = r, nonce = 0,
               transactions =
                 \<lparr>sender = ''network'', recipient = miner_address, amount = 6.25\<rparr> # mem_pool bc\<rparr>
            0 max_tries bc)"
  using assms by (simp add: mine_def last_block_def Let_def)

lemma mine_empty_chain:
  "chain bc = [] \<Longrightarrow> mine lib now miner_address max_tries bc = Inl IndexError"
proof -
  assume e: "chain bc = []"
  obtain r where "merkle_root lib (map (Transaction_hash lib)
      (\<lparr>sender = ''network'', recipient = miner_address, amount = 6.25\<rparr> # mem_pool bc)) = Inr r"
    using merkle_root_tx_total by blast
  with e show ?thesis
    by (simp add: mine_def last_block_def Let_def)
qed

lemma mine_result:
  assumes run: "mine lib now miner_address max_tries bc = Inr (res, bc')"
  shows "chain bc \<noteq> [] \<and>
    (\<exists>r. merkle_root lib (map (Transaction_hash lib)
            (\<lparr>sender = ''network'', recipient = miner_address, amount = 6.25\<rparr> # mem_pool bc)) = Inr r \<and>
         mine_loop lib
            \<lparr>index = int (length (chain bc)), timestamp = now,
               prev_hash = Block_hash lib (last (chain bc)), merkle_root_field = r, nonce = 0,
               transactions =
                 \<lparr>sender = ''network'', recipient = miner_address, amount = 6.25\<rparr> # mem_pool bc\<rparr>
            0 max_tries bc = (res, bc'))"
proof -
  from run have ne: "chain bc \<noteq> []"
    by (auto simp: mine_empty_chain)
  obtain r where r: "merkle_root lib (map (Transaction_hash lib)
      (\<lparr>sender = ''network'', recipient = miner_address, amount = 6.25\<rparr> # mem_pool bc)) = Inr r"
    using merkle_root_tx_total by blast
  from run mine_eq [OF ne r, of now max_tries] r ne show ?thesis
    by auto
qed

lemma mine_Some:
  assumes run: "mine lib now miner_address max_tries bc = Inr (Some b, bc')"
  shows "chain bc \<noteq> []"
    and "bc' = bc\<lparr>chain := chain bc @ [b], mem_pool := []\<rparr>"
    and "index b = int (length (chain bc))"
    and "timestamp b = now"
    and "prev_hash b = Block_hash lib (last (chain bc))"
    and "transactions b =
           \<lparr>sender = ''network'', recipient = miner_address, amount = 6.25\<rparr> # mem_pool bc"
    and "merkle_root lib (map (Transaction_hash lib) (transactions b)) = Inr (merkle_root_field b)"
    and "startswith (Block_hash lib b) DIFFICULTY_PREFIX"
    and "0 \<le> nonce b" and "nonce b < max_tries"
proof -
  from mine_result [OF run] obtain r where ne: "chain bc \<noteq> []"
    and r: "merkle_root lib (map (Transaction_hash lib)
            (\<lparr>sender = ''network'', recipient = miner_address, amount = 6.25\<rparr> # mem_pool bc)) = Inr r"
    and loop: "mine_loop lib
            \<lparr>index = int (length (chain bc)), timestamp = now,
               prev_hash = Block_hash lib (last (chain bc)), merkle_root_field = r, nonce = 0,
               transactions =
                 \<lparr>sender = ''network'', recipient = miner_address, amount = 6.25\<rparr> # mem_pool bc\<rparr>
            0 max_tries bc = (Some b, bc')"
    by blast
  from mine_loop_result [OF loop]
  have b: "b = \<lparr>index = int (length (chain bc)), timestamp = now,
               prev_hash = Block_hash lib (last (chain bc)), merkle_root_field = r, nonce = nonce b,
               transactions =
                 \<lparr>sender = ''network'', recipient = miner_address, amount = 6.25\<rparr> # mem_pool bc\<rparr>"
    and rest: "0 \<le> nonce b" "nonce b < max_tries"
      "bc' = bc\<lparr>chain := chain bc @ [b], mem_pool := []\<rparr>"
    and pow: "pow_ok lib \<lparr>index = int (length (chain bc)), timestamp = now,
               prev_hash = Block_hash lib (last (chain bc)), merkle_root_field = r, nonce = 0,
               transactions =
                 \<lparr>sender = ''network'', recipient = miner_address, amount = 6.25\<rparr> # mem_pool bc\<rparr> (nonce b)"
    by simp_all
  show "chain bc \<noteq> []" by (rule ne)
  show "bc' = bc\<lparr>chain := chain bc @ [b], mem_pool := []\<rparr>" by (rule rest)
  show "0 \<le> nonce b" "nonce b < max_tries" by (rule rest)+
  from b show "index b = int (length (chain bc))" by (metis Block.select_convs(1))
  from b show "timestamp b = now" by (metis Block.select_convs(2))
  from b show "prev_hash b = Block_hash lib (last (chain bc))" by (metis Block.select_convs(3))
  from b show tx: "transactions b =
           \<lparr>sender = ''network'', recipient = miner_address, amount = 6.25\<rparr> # mem_pool bc"
    by (metis Block.select_convs(6))
  from b have "merkle_root_field b = r" by (metis Block.select_convs(4))
  with r tx show "merkle_root lib (map (Transaction_hash lib) (transactions b)) = Inr (merkle_root_field b)"
    by simp
  from pow b show "startswith (Block_hash lib b) DIFFICULTY_PREFIX"
    by (simp add: pow_ok_def)
qed

lemma mine_None:
  "mine lib now miner_address max_tries bc = Inr (None, bc') \<Longrightarrow> bc' = bc"
proof -
  assume run: "mine lib now miner_address max_tries bc = Inr (None, bc')"
  from mine_result [OF run] obtain blk where "mine_loop lib blk 0 max_tries bc = (None, bc')"
    by blast
  from mine_loop_result [OF this] show ?thesis
    by simp
qed

subsection \<open>What every reachable ledger satisfies\<close>

lemma block_ok_append:
  "1 \<le> j \<Longrightarrow> j < length ch \<Longrightarrow> block_ok lib (ch @ [b]) j = block_ok lib ch j"
proof -
  assume "1 \<le> j" and j: "j < length ch"
  then have "j - 1 < length ch"
    by arith
  with j show ?thesis
    by (simp add: block_ok_def nth_append)
qed

lemma block_ok_last:
  "ch \<noteq> [] \<Longrightarrow>
   block_ok lib (ch @ [b]) (length ch) =
     (prev_hash b = Block_hash lib (last ch) \<and>
      startswith (Block_hash lib b) DIFFICULTY_PREFIX \<and>
      merkle_root lib (map (Transaction_hash lib) (transactions b)) = Inr (merkle_root_field b))"
  by (simp add: block_ok_def nth_append last_conv_nth)

lemma reachable_inv:
  "reachable lib bc \<Longrightarrow>
   chain bc \<noteq> [] \<and>
   (\<forall>j. 1 \<le> j \<and> j < length (chain bc) \<longrightarrow> block_ok lib (chain bc) j) \<and>
   (\<forall>b \<in> set (chain bc).
      merkle_root lib (map (Transaction_hash lib) (transactions b)) = Inr (merkle_root_field b)) \<and>
   transactions (chain bc ! 0) = [\<lparr>sender = ''network'', recipient = ''satoshi'', amount = 50.0\<rparr>] \<and>
   merkle_root_field (chain bc ! 0) =
     Transaction_hash lib \<lparr>sender = ''network'', recipient = ''satoshi'', amount = 50.0\<rparr>"
proof (induction rule: reachable.induct)
  case (construct now bc)
  then show ?case
    by (auto simp: Blockchain_init_eq merkle_root_single)
next
  case (submit bc s r a)
  then show ?case
    by (simp add: add_transaction_def)
next
  case (mined bc now miner_address max_tries res bc')
  show ?case
  proof (cases res)
    case None
    with mined.hyps have "bc' = bc"
      by (simp add: mine_None)
    with mined.IH show ?thesis
      by simp
  next
    case (Some b)
    with mined.hyps have run: "mine lib now miner_address max_tries bc = Inr (Some b, bc')"
      by simp
    note m = mine_Some [OF run]
    from m(2) have ch: "chain bc' = chain bc @ [b]"
      by simp
    from mined.IH have ne: "chain bc \<noteq> []"
      by simp
    have last_ok: "block_ok lib (chain bc @ [b]) (length (chain bc))"
      using m(5) m(7) m(8) by (simp add: block_ok_last [OF ne])
    have "\<And>j. 1 \<le> j \<Longrightarrow> j < length (chain bc') \<Longrightarrow> block_ok lib (chain bc') j"
    proof -
      fix j assume j: "1 \<le> j" "j < length (chain bc')"
      show "block_ok lib (chain bc') j"
      proof (cases "j < length (chain bc)")
        case True
        with j mined.IH show ?thesis
          by (simp add: ch block_ok_append)
      next
        case False
        with j ch have "j = length (chain bc)"
          by simp
        with last_ok ch show ?thesis
          by simp
      qed
    qed
    moreover from mined.IH m(7) have "\<forall>b \<in> set (chain bc').
      merkle_root lib (map (Transaction_hash lib) (transactions b)) = Inr (merkle_root_field b)"
      by (simp add: ch)
    moreover from ne have "chain bc' ! 0 = chain bc ! 0"
      by (simp add: ch nth_append)
    ultimately show ?thesis
      using mined.IH ch by simp
  qed
qed

subsection \<open>The canonical text that is digested, and the run of the small instance\<close>

lemma demo_init: "Blockchain_init demo_lib 1700000000 = Inr demo_bc0"
  by code_simp

lemma demo_submit:
  "add_transaction ''Carol'' ''Dave'' 0.7 (add_transaction ''Alice'' ''Bob'' 1.2 demo_bc0) = demo_bc1"
  by code_simp

lemma demo_mine: "mine demo_lib 1700000060 ''miner1'' 10 demo_bc1 = Inr (Some demo_block1, demo_bc2)"
  by code_simp

lemma demo_mine_exhausted: "mine demo_lib 1700000060 ''miner1'' 2 demo_bc1 = Inr (None, demo_bc1)"
  by code_simp

lemma demo_reachable1: "reachable demo_lib demo_bc1"
proof -
  have "reachable demo_lib demo_bc0"
    by (rule reachable.construct [OF demo_init])
  then have "reachable demo_lib
      (add_transaction ''Carol'' ''Dave'' 0.7 (add_transaction ''Alice'' ''Bob'' 1.2 demo_bc0))"
    by (intro reachable.submit)
  then show ?thesis
    by (simp only: demo_submit)
qed

lemma demo_reachable2: "reachable demo_lib demo_bc2"
  by (rule reachable.mined [OF demo_reachable1 demo_mine])

lemma header_dict_sorted:
  "sort_key fst [(''index'', a :: json), (''timestamp'', b), (''prev_hash'', c), (''merkle_root'', d), (''nonce'', e)]
    = [(''index'', a), (''merkle_root'', d), (''nonce'', e), (''prev_hash'', c), (''timestamp'', b)]"
  by code_simp

lemma asdict_sorted:
  "sort_key fst [(''sender'', a :: json), (''recipient'', b), (''amount'', c)]
    = [(''amount'', c), (''recipient'', b), (''sender'', a)]"
  by code_simp

lemma json_str_ascii: "json_str ''index'' = dquote # ''index'' @ [dquote]"
  by code_simp

lemma Block_hash_text:
  "Block_hash lib b =
     sha256 lib (encode
       (''{'' @ json_str ''index'' @ '':'' @ int_repr (index b) @ '','' @
        json_str ''merkle_root'' @ '':'' @ json_str (merkle_root_field b) @ '','' @
        json_str ''nonce'' @ '':'' @ int_repr (nonce b) @ '','' @
        json_str ''prev_hash'' @ '':'' @ json_str (prev_hash b) @ '','' @
        json_str ''timestamp'' @ '':'' @ float_repr lib (py_round lib (timestamp b) 6) @ ''}''))"
  by (simp add: Block_hash_def jhash_def header_dict_def json_dumps_def header_dict_sorted
      del: sort_key_simps insort_key.simps)

lemma Transaction_hash_text:
  "Transaction_hash lib t =
     sha256 lib (encode
       (''{'' @ json_str ''amount'' @ '':'' @ float_repr lib (amount t) @ '','' @
        json_str ''recipient'' @ '':'' @ json_str (recipient t) @ '','' @
        json_str ''sender'' @ '':'' @ json_str (sender t) @ ''}''))"
  by (simp add: Transaction_hash_def jhash_def asdict_def json_dumps_def asdict_sorted
      del: sort_key_simps insort_key.simps)

lemma demo_block1_ok: "block_ok demo_lib [demo_genesis, demo_block1] 1"
  by code_simp

lemma demo_block1_nonce0_fails:
  "\<not> block_ok demo_lib [demo_genesis, demo_block1\<lparr>nonce := 0\<rparr>] 1"
  by code_simp

subsection \<open>Replacing one block\<close>

lemma valid_chain_False:
  "1 \<le> j \<Longrightarrow> j < length (chain bc) \<Longrightarrow> \<not> block_ok lib (chain bc) j \<Longrightarrow>
   valid_chain lib bc = Inr False"
  by (auto simp: valid_chain_iff)




subsection \<open>Changed blocks in the run of the small instance\<close>






lemma demo_candidate_root:
  "merkle_root demo_lib (map (Transaction_hash demo_lib)
     (\<lparr>sender = ''network'', recipient = ''miner1'', amount = 6.25\<rparr> # mem_pool demo_bc1))
   = Inr ''00000000''"
  by code_simp

lemma demo_candidate_misses:
  "\<not> startswith (Block_hash demo_lib
       \<lparr>index = int (length (chain demo_bc1)), timestamp = 1700000060,
          prev_hash = Block_hash demo_lib (last (chain demo_bc1)),
          merkle_root_field = ''00000000'', nonce = 0,
          transactions = \<lparr>sender = ''network'', recipient = ''miner1'', amount = 6.25\<rparr>
                           # mem_pool demo_bc1\<rparr>) DIFFICULTY_PREFIX"
  "\<not> startswith (Block_hash demo_lib
       \<lparr>index = int (length (chain demo_bc1)), timestamp = 1700000060,
          prev_hash = Block_hash demo_lib (last (chain demo_bc1)),
          merkle_root_field = ''00000000'', nonce = 1,
          transactions = \<lparr>sender = ''network'', recipient = ''miner1'', amount = 6.25\<rparr>
                           # mem_pool demo_bc1\<rparr>) DIFFICULTY_PREFIX"
  by code_simp+

section \<open>The claims\<close>






text \<open>
  C8. \<^const>\<open>merkle_root\<close> is the reference definition \<^const>\<open>merkleRoot_spec\<close>: on the
  empty sequence the digest of the empty byte sequence, on one digest that digest
  unchanged, and otherwise the repeated pairwise reduction with the last element
  duplicated in a layer of odd length. The two agree on every input, also where a text
  that is not hexadecimal makes both raise.
\<close>

theorem C8_merkle_root_refines_spec:
  "merkle_root lib hashes = merkleRoot_spec lib hashes"
  by (cases "hashes = []") (simp_all add: merkle_root_def merkle_layers_spec)

text \<open>
  C2. In every ledger reachable from construction through \<^verbatim>\<open>add_transaction\<close> and \<^verbatim>\<open>mine\<close>
  calls, \<^verbatim>\<open>valid_chain()\<close> returns \<^verbatim>\<open>True\<close> (and does not raise).
\<close>

theorem C2_reachable_ledger_is_valid:
  assumes "reachable lib bc"
  shows "valid_chain lib bc = Inr True"
  using reachable_inv [OF assms] by (simp add: valid_chain_iff)

theorem C2_witness:
  "reachable demo_lib demo_bc2 \<and> valid_chain demo_lib demo_bc2 = Inr True"
  using C2_reachable_ledger_is_valid [OF demo_reachable2] demo_reachable2 by simp

text \<open>
  C4. On a ledger with a chain, \<^verbatim>\<open>mine\<close> returns. The candidate block has index, timestamp,
  previous hash, Merkle root and transactions fixed and only its nonce varies. When a
  block is returned its nonce \<open>n\<close> satisfies \<open>0 \<le> n < max_tries\<close>, its header digest
  starts with the difficulty prefix, and no smaller nonce from 0 upward does: it is the
  least one. When \<^verbatim>\<open>None\<close> is returned no nonce in the range passes.
\<close>

theorem C4_least_nonce:
  assumes "chain bc \<noteq> []"
  shows "\<exists>res bc' r.
    mine lib now miner_address max_tries bc = Inr (res, bc') \<and>
    merkle_root lib (map (Transaction_hash lib)
      (\<lparr>sender = ''network'', recipient = miner_address, amount = 6.25\<rparr> # mem_pool bc)) = Inr r \<and>
    (let candidate = (\<lambda>n. \<lparr>index = int (length (chain bc)), timestamp = now,
                              prev_hash = Block_hash lib (last (chain bc)),
                              merkle_root_field = r, nonce = n,
                              transactions =
                                \<lparr>sender = ''network'', recipient = miner_address, amount = 6.25\<rparr>
                                  # mem_pool bc\<rparr>);
         hit = (\<lambda>n. startswith (Block_hash lib (candidate n)) DIFFICULTY_PREFIX)
     in case res of
          Some b \<Rightarrow> 0 \<le> nonce b \<and> nonce b < max_tries \<and> b = candidate (nonce b) \<and>
                    hit (nonce b) \<and> (\<forall>m. 0 \<le> m \<and> m < nonce b \<longrightarrow> \<not> hit m)
        | None \<Rightarrow> (\<forall>m. 0 \<le> m \<and> m < max_tries \<longrightarrow> \<not> hit m))"
proof -
  let ?reward = "\<lparr>sender = ''network'', recipient = miner_address, amount = 6.25\<rparr>"
  obtain r where r: "merkle_root lib (map (Transaction_hash lib) (?reward # mem_pool bc)) = Inr r"
    using merkle_root_tx_total by blast
  define block where "block = \<lparr>index = int (length (chain bc)), timestamp = now,
      prev_hash = Block_hash lib (last (chain bc)), merkle_root_field = r, nonce = 0,
      transactions = ?reward # mem_pool bc\<rparr>"
  obtain res bc' where loop: "mine_loop lib block 0 max_tries bc = (res, bc')"
    by (cases "mine_loop lib block 0 max_tries bc")
  from mine_eq [OF assms r, of now max_tries] loop
  have run: "mine lib now miner_address max_tries bc = Inr (res, bc')"
    by (simp add: block_def)
  have cand: "\<And>n. block\<lparr>nonce := n\<rparr> = \<lparr>index = int (length (chain bc)), timestamp = now,
      prev_hash = Block_hash lib (last (chain bc)), merkle_root_field = r, nonce = n,
      transactions = ?reward # mem_pool bc\<rparr>"
    by (simp add: block_def)
  from mine_loop_result [OF loop]
  have "case res of
          Some b \<Rightarrow> 0 \<le> nonce b \<and> nonce b < max_tries \<and> b = block\<lparr>nonce := nonce b\<rparr> \<and>
                    pow_ok lib block (nonce b) \<and> (\<forall>m. 0 \<le> m \<and> m < nonce b \<longrightarrow> \<not> pow_ok lib block m)
        | None \<Rightarrow> (\<forall>m. 0 \<le> m \<and> m < max_tries \<longrightarrow> \<not> pow_ok lib block m)"
    by (cases res) simp_all
  then have "case res of
          Some b \<Rightarrow> 0 \<le> nonce b \<and> nonce b < max_tries \<and> b = block\<lparr>nonce := nonce b\<rparr> \<and>
                    startswith (Block_hash lib (block\<lparr>nonce := nonce b\<rparr>)) DIFFICULTY_PREFIX \<and>
                    (\<forall>m. 0 \<le> m \<and> m < nonce b \<longrightarrow>
                       \<not> startswith (Block_hash lib (block\<lparr>nonce := m\<rparr>)) DIFFICULTY_PREFIX)
        | None \<Rightarrow> (\<forall>m. 0 \<le> m \<and> m < max_tries \<longrightarrow>
                       \<not> startswith (Block_hash lib (block\<lparr>nonce := m\<rparr>)) DIFFICULTY_PREFIX)"
    unfolding pow_ok_def .
  with run r show ?thesis
    unfolding cand Let_def by blast
qed

theorem C4_witness:
  "chain demo_bc1 \<noteq> [] \<and>
   (\<exists>b bc'. mine demo_lib 1700000060 ''miner1'' 10 demo_bc1 = Inr (Some b, bc') \<and> nonce b = 2) \<and>
   (\<exists>bc'. mine demo_lib 1700000060 ''miner1'' 2 demo_bc1 = Inr (None, bc'))"
proof -
  have ne: "chain demo_bc1 \<noteq> []"
    by code_simp
  have two: "nonce demo_block1 = 2"
    by code_simp
  from C4_least_nonce [OF ne, of demo_lib 1700000060 "''miner1''" 10]
  obtain res bc' where "mine demo_lib 1700000060 ''miner1'' 10 demo_bc1 = Inr (res, bc')"
    by blast
  with demo_mine two have "\<exists>b bc'. mine demo_lib 1700000060 ''miner1'' 10 demo_bc1 = Inr (Some b, bc') \<and> nonce b = 2"
    by simp
  with ne demo_mine_exhausted show ?thesis
    by blast
qed

text \<open>
  C5. When \<^verbatim>\<open>mine\<close> returns \<^verbatim>\<open>None\<close> the ledger after the call is the ledger before it:
  same chain, same pool in the same order. A bound of 0 (or below) always ends that way,
  and so does every bound below which no candidate nonce passes the difficulty test.
\<close>

theorem C5_failed_mine_changes_nothing:
  assumes "chain bc \<noteq> []"
  shows "(\<forall>bc'. mine lib now miner_address max_tries bc = Inr (None, bc') \<longrightarrow>
            bc' = bc \<and> chain bc' = chain bc \<and> mem_pool bc' = mem_pool bc) \<and>
         (max_tries \<le> 0 \<longrightarrow> mine lib now miner_address max_tries bc = Inr (None, bc)) \<and>
         (\<forall>r. merkle_root lib (map (Transaction_hash lib)
                 (\<lparr>sender = ''network'', recipient = miner_address, amount = 6.25\<rparr> # mem_pool bc)) = Inr r \<and>
              (\<forall>n. 0 \<le> n \<and> n < max_tries \<longrightarrow>
                 \<not> startswith
                     (Block_hash lib
                        \<lparr>index = int (length (chain bc)), timestamp = now,
                           prev_hash = Block_hash lib (last (chain bc)),
                           merkle_root_field = r, nonce = n,
                           transactions =
                             \<lparr>sender = ''network'', recipient = miner_address, amount = 6.25\<rparr>
                               # mem_pool bc\<rparr>)
                     DIFFICULTY_PREFIX) \<longrightarrow>
            mine lib now miner_address max_tries bc = Inr (None, bc))"
proof -
  let ?reward = "\<lparr>sender = ''network'', recipient = miner_address, amount = 6.25\<rparr>"
  obtain r where r: "merkle_root lib (map (Transaction_hash lib) (?reward # mem_pool bc)) = Inr r"
    using merkle_root_tx_total by blast
  define block where "block = \<lparr>index = int (length (chain bc)), timestamp = now,
      prev_hash = Block_hash lib (last (chain bc)), merkle_root_field = r, nonce = 0,
      transactions = ?reward # mem_pool bc\<rparr>"
  have run: "mine lib now miner_address max_tries bc = Inr (mine_loop lib block 0 max_tries bc)"
    using mine_eq [OF assms r, of now max_tries] by (simp add: block_def)
  have cand: "\<And>n. block\<lparr>nonce := n\<rparr> = \<lparr>index = int (length (chain bc)), timestamp = now,
      prev_hash = Block_hash lib (last (chain bc)), merkle_root_field = r, nonce = n,
      transactions = ?reward # mem_pool bc\<rparr>"
    by (simp add: block_def)
  have zero: "max_tries \<le> 0 \<Longrightarrow> mine lib now miner_address max_tries bc = Inr (None, bc)"
    using run by (simp add: mine_loop.simps [of lib block 0 max_tries bc])
  have same: "\<And>bc'. mine lib now miner_address max_tries bc = Inr (None, bc') \<Longrightarrow> bc' = bc"
    by (rule mine_None)
  have exhausted: "mine lib now miner_address max_tries bc = Inr (None, bc)"
    if none: "\<forall>n. 0 \<le> n \<and> n < max_tries \<longrightarrow>
        \<not> startswith (Block_hash lib (block\<lparr>nonce := n\<rparr>)) DIFFICULTY_PREFIX"
  proof -
    obtain res bc' where loop: "mine_loop lib block 0 max_tries bc = (res, bc')"
      by (cases "mine_loop lib block 0 max_tries bc")
    note fact = mine_loop_result [OF loop]
    have "res = None"
    proof (cases res)
      case (Some b)
      with fact have "0 \<le> nonce b" "nonce b < max_tries" "pow_ok lib block (nonce b)"
        by simp_all
      with none show ?thesis
        by (simp add: pow_ok_def)
    qed simp
    with fact loop run show ?thesis
      by simp
  qed
  have last: "mine lib now miner_address max_tries bc = Inr (None, bc)"
    if "merkle_root lib (map (Transaction_hash lib) (?reward # mem_pool bc)) = Inr r'"
      and "\<forall>n. 0 \<le> n \<and> n < max_tries \<longrightarrow>
                 \<not> startswith
                     (Block_hash lib
                        \<lparr>index = int (length (chain bc)), timestamp = now,
                           prev_hash = Block_hash lib (last (chain bc)),
                           merkle_root_field = r', nonce = n,
                           transactions = ?reward # mem_pool bc\<rparr>)
                     DIFFICULTY_PREFIX" for r'
  proof -
    from that(1) r have "r' = r"
      by simp
    with that(2) show ?thesis
      by (intro exhausted) (simp add: cand)
  qed
  from zero same last show ?thesis
    by blast
qed

theorem C5_witness:
  "chain demo_bc1 \<noteq> [] \<and>
   mine demo_lib 1700000060 ''miner1'' 2 demo_bc1 = Inr (None, demo_bc1) \<and>
   mine demo_lib 1700000060 ''miner1'' 0 demo_bc1 = Inr (None, demo_bc1)"
proof -
  have ne: "chain demo_bc1 \<noteq> []"
    by (simp add: demo_bc1_def)
  note t = C5_failed_mine_changes_nothing [OF ne, of demo_lib 1700000060 "''miner1''"]
  have "mine demo_lib 1700000060 ''miner1'' 0 demo_bc1 = Inr (None, demo_bc1)"
    using t [of 0] by simp
  moreover have "mine demo_lib 1700000060 ''miner1'' 2 demo_bc1 = Inr (None, demo_bc1)"
  proof -
    have "\<forall>n. 0 \<le> n \<and> n < (2::int) \<longrightarrow>
        \<not> startswith (Block_hash demo_lib
          \<lparr>index = int (length (chain demo_bc1)), timestamp = 1700000060,
             prev_hash = Block_hash demo_lib (last (chain demo_bc1)),
             merkle_root_field = ''00000000'', nonce = n,
             transactions = \<lparr>sender = ''network'', recipient = ''miner1'', amount = 6.25\<rparr>
                              # mem_pool demo_bc1\<rparr>) DIFFICULTY_PREFIX"
    proof (intro allI impI)
      fix n :: int assume "0 \<le> n \<and> n < 2"
      then have "n = 0 \<or> n = 1"
        by arith
      with demo_candidate_misses show "\<not> startswith (Block_hash demo_lib
          \<lparr>index = int (length (chain demo_bc1)), timestamp = 1700000060,
             prev_hash = Block_hash demo_lib (last (chain demo_bc1)),
             merkle_root_field = ''00000000'', nonce = n,
             transactions = \<lparr>sender = ''network'', recipient = ''miner1'', amount = 6.25\<rparr>
                              # mem_pool demo_bc1\<rparr>) DIFFICULTY_PREFIX"
        by blast
    qed
    with t [of 2] demo_candidate_root show ?thesis
      by blast
  qed
  ultimately show ?thesis
    using ne by blast
qed

text \<open>
  C6. After a successful \<^verbatim>\<open>mine\<close> the pool is empty, the chain is the old chain with the
  returned block appended (so it is one longer), the block's index is the old length and
  its previous hash is the header digest of the old last block.
\<close>

theorem C6_successful_mine_appends:
  assumes "mine lib now miner_address max_tries bc = Inr (Some b, bc')"
  shows "mem_pool bc' = [] \<and>
         length (chain bc') = length (chain bc) + 1 \<and>
         chain bc' = chain bc @ [b] \<and>
         index b = int (length (chain bc)) \<and>
         prev_hash b = Block_hash lib (last (chain bc))"
  using mine_Some(2,3,5) [OF assms] by simp

theorem C6_witness:
  "mine demo_lib 1700000060 ''miner1'' 10 demo_bc1 = Inr (Some demo_block1, demo_bc2) \<and>
   mem_pool demo_bc2 = [] \<and>
   length (chain demo_bc2) = length (chain demo_bc1) + 1 \<and>
   chain demo_bc2 = chain demo_bc1 @ [demo_block1] \<and>
   index demo_block1 = int (length (chain demo_bc1)) \<and>
   prev_hash demo_block1 = Block_hash demo_lib (last (chain demo_bc1))"
  using C6_successful_mine_appends [OF demo_mine] demo_mine by simp

text \<open>
  C7. The mined block's transactions are the reward transaction (sender "network",
  recipient the miner's address, amount 6.25) followed by the pool in insertion order,
  and the block's Merkle root is computed over the hashes of exactly that sequence.
\<close>

theorem C7_reward_first:
  assumes "mine lib now miner_address max_tries bc = Inr (Some b, bc')"
  shows "transactions b =
           \<lparr>sender = ''network'', recipient = miner_address, amount = 6.25\<rparr> # mem_pool bc \<and>
         merkle_root lib (map (Transaction_hash lib)
           (\<lparr>sender = ''network'', recipient = miner_address, amount = 6.25\<rparr> # mem_pool bc))
           = Inr (merkle_root_field b)"
  using mine_Some(6,7) [OF assms] by simp

theorem C7_witness:
  "mine demo_lib 1700000060 ''miner1'' 10 demo_bc1 = Inr (Some demo_block1, demo_bc2) \<and>
   transactions demo_block1 =
     \<lparr>sender = ''network'', recipient = ''miner1'', amount = 6.25\<rparr> # mem_pool demo_bc1 \<and>
   merkle_root demo_lib (map (Transaction_hash demo_lib)
     (\<lparr>sender = ''network'', recipient = ''miner1'', amount = 6.25\<rparr> # mem_pool demo_bc1))
     = Inr (merkle_root_field demo_block1)"
  using C7_reward_first [OF demo_mine] demo_mine by simp

text \<open>
  C9. The header digest is the digest of the JSON text of the five header fields, keys in
  alphabetical order (index, merkle_root, nonce, prev_hash, timestamp), separated by a
  comma and a colon with no white space, the timestamp rounded to 6 places. The
  transactions are not in that text: replacing them leaves the digest as it was.
\<close>

theorem C9_header_digest:
  "Block_hash lib b =
     sha256 lib (encode
       (''{'' @ json_str ''index'' @ '':'' @ int_repr (index b) @ '','' @
        json_str ''merkle_root'' @ '':'' @ json_str (merkle_root_field b) @ '','' @
        json_str ''nonce'' @ '':'' @ int_repr (nonce b) @ '','' @
        json_str ''prev_hash'' @ '':'' @ json_str (prev_hash b) @ '','' @
        json_str ''timestamp'' @ '':'' @ float_repr lib (py_round lib (timestamp b) 6) @ ''}'')) \<and>
   Block_hash lib (b\<lparr>transactions := txs\<rparr>) = Block_hash lib b"
proof -
  have "Block_hash lib (b\<lparr>transactions := txs\<rparr>) = Block_hash lib b"
    by (simp add: Block_hash_def header_dict_def)
  with Block_hash_text show ?thesis
    by blast
qed

theorem C9_witness:
  "Block_hash demo_lib (demo_block1\<lparr>transactions := []\<rparr>) = Block_hash demo_lib demo_block1 \<and>
   Block_hash demo_lib demo_block1 = ''00000000''"
proof -
  have "Block_hash demo_lib demo_block1 = ''00000000''"
    by code_simp
  with C9_header_digest [of demo_lib demo_block1 "[]"] show ?thesis
    by simp
qed

text \<open>
  C10. In every reachable ledger each block of the chain, the genesis block included,
  stores the Merkle root of the hashes of its own transactions in stored order; the
  genesis block's transactions are the one synthetic transaction and its stored root is
  that transaction's hash.
\<close>

theorem C10_stored_merkle_root:
  assumes "reachable lib bc"
  shows "(\<forall>b \<in> set (chain bc).
            merkle_root lib (map (Transaction_hash lib) (transactions b)) = Inr (merkle_root_field b)) \<and>
         chain bc \<noteq> [] \<and>
         transactions (chain bc ! 0) =
           [\<lparr>sender = ''network'', recipient = ''satoshi'', amount = 50.0\<rparr>] \<and>
         merkle_root_field (chain bc ! 0) =
           Transaction_hash lib \<lparr>sender = ''network'', recipient = ''satoshi'', amount = 50.0\<rparr>"
  using reachable_inv [OF assms] by simp

theorem C10_witness:
  "reachable demo_lib demo_bc2 \<and>
   merkle_root demo_lib (map (Transaction_hash demo_lib) (transactions demo_genesis))
     = Inr (merkle_root_field demo_genesis) \<and>
   merkle_root demo_lib (map (Transaction_hash demo_lib) (transactions demo_block1))
     = Inr (merkle_root_field demo_block1) \<and>
   merkle_root_field demo_genesis =
     Transaction_hash demo_lib \<lparr>sender = ''network'', recipient = ''satoshi'', amount = 50.0\<rparr>"
proof -
  have ch: "chain demo_bc2 = [demo_genesis, demo_block1]"
    by (simp add: demo_bc2_def)
  note inv = C10_stored_merkle_root [OF demo_reachable2]
  from inv have every: "\<forall>b \<in> set (chain demo_bc2).
      merkle_root demo_lib (map (Transaction_hash demo_lib) (transactions b)) = Inr (merkle_root_field b)"
    by blast
  from inv have first: "merkle_root_field (chain demo_bc2 ! 0) =
      Transaction_hash demo_lib \<lparr>sender = ''network'', recipient = ''satoshi'', amount = 50.0\<rparr>"
    by blast
  from every have "merkle_root demo_lib (map (Transaction_hash demo_lib) (transactions demo_genesis))
      = Inr (merkle_root_field demo_genesis)"
    and "merkle_root demo_lib (map (Transaction_hash demo_lib) (transactions demo_block1))
      = Inr (merkle_root_field demo_block1)"
    unfolding ch by simp_all
  moreover from first have "merkle_root_field demo_genesis =
      Transaction_hash demo_lib \<lparr>sender = ''network'', recipient = ''satoshi'', amount = 50.0\<rparr>"
    unfolding ch by simp
  ultimately show ?thesis
    using demo_reachable2 by blast
qed


text \<open>
  C3. \<^verbatim>\<open>valid_chain()\<close> returns \<^verbatim>\<open>True\<close> exactly when every index \<open>i\<close> from 1 to the
  last passes the three checks: (a) the stored previous hash is the header digest of
  block \<open>i - 1\<close>, (b) the header digest of block \<open>i\<close> starts with the difficulty prefix,
  (c) the Merkle root of the hashes of the block's transactions, in stored order, is the
  stored root. Index 0 is not checked, a chain of length 1 is valid, and once a block
  fails the answer is \<^verbatim>\<open>False\<close> whatever blocks follow it.
\<close>

theorem C3_valid_chain_checks:
  "valid_chain lib bc =
     Inr (\<forall>i \<in> {1..<length (chain bc)}.
            prev_hash (chain bc ! i) = Block_hash lib (chain bc ! (i - 1)) \<and>
            startswith (Block_hash lib (chain bc ! i)) DIFFICULTY_PREFIX \<and>
            merkle_root lib (map (Transaction_hash lib) (transactions (chain bc ! i)))
              = Inr (merkle_root_field (chain bc ! i))) \<and>
   (length (chain bc) = 1 \<longrightarrow> valid_chain lib bc = Inr True) \<and>
   (\<forall>i later. 1 \<le> i \<and> i < length (chain bc) \<and> \<not> block_ok lib (chain bc) i \<longrightarrow>
      valid_chain lib (bc\<lparr>chain := take (i + 1) (chain bc) @ later\<rparr>) = Inr False)"
proof (intro conjI allI impI)
  have "(\<forall>j. 1 \<le> j \<and> j < length (chain bc) \<longrightarrow> block_ok lib (chain bc) j) =
      (\<forall>i \<in> {1..<length (chain bc)}.
            prev_hash (chain bc ! i) = Block_hash lib (chain bc ! (i - 1)) \<and>
            startswith (Block_hash lib (chain bc ! i)) DIFFICULTY_PREFIX \<and>
            merkle_root lib (map (Transaction_hash lib) (transactions (chain bc ! i)))
              = Inr (merkle_root_field (chain bc ! i)))"
    by (auto simp: block_ok_def)
  then show "valid_chain lib bc =
     Inr (\<forall>i \<in> {1..<length (chain bc)}.
            prev_hash (chain bc ! i) = Block_hash lib (chain bc ! (i - 1)) \<and>
            startswith (Block_hash lib (chain bc ! i)) DIFFICULTY_PREFIX \<and>
            merkle_root lib (map (Transaction_hash lib) (transactions (chain bc ! i)))
              = Inr (merkle_root_field (chain bc ! i)))"
    by (simp only: valid_chain_iff)
next
  assume "length (chain bc) = 1"
  then show "valid_chain lib bc = Inr True"
    by (simp add: valid_chain_iff)
next
  fix i later
  assume a: "1 \<le> i \<and> i < length (chain bc) \<and> \<not> block_ok lib (chain bc) i"
  let ?ch = "take (i + 1) (chain bc) @ later"
  from a have "i - 1 < i + 1" "i < i + 1" "i - 1 < length (chain bc)"
    by arith+
  with a have "?ch ! i = chain bc ! i" "?ch ! (i - 1) = chain bc ! (i - 1)"
    by (simp_all add: nth_append)
  with a have "\<not> block_ok lib ?ch i"
    by (simp add: block_ok_def)
  moreover from a have "i < length ?ch"
    by simp
  ultimately show "valid_chain lib (bc\<lparr>chain := ?ch\<rparr>) = Inr False"
    using a valid_chain_False [of i "bc\<lparr>chain := ?ch\<rparr>" lib] by simp
qed

theorem C3_witness:
  "valid_chain demo_lib demo_bc0 = Inr True \<and>
   valid_chain demo_lib demo_bc2 = Inr True \<and>
   valid_chain demo_lib (demo_bc2\<lparr>chain := [demo_genesis, demo_block1\<lparr>nonce := 0\<rparr>, demo_block1]\<rparr>)
     = Inr False"
proof -
  have one: "length (chain demo_bc0) = 1"
    by (simp add: demo_bc0_def)
  have ch2: "chain demo_bc2 = [demo_genesis, demo_block1]"
    by (simp add: demo_bc2_def)
  have only: "i = 1" if "i \<in> {1..<length (chain demo_bc2)}" for i :: nat
    using that by (simp add: ch2)
  have checks: "\<forall>i \<in> {1..<length (chain demo_bc2)}.
            prev_hash (chain demo_bc2 ! i) = Block_hash demo_lib (chain demo_bc2 ! (i - 1)) \<and>
            startswith (Block_hash demo_lib (chain demo_bc2 ! i)) DIFFICULTY_PREFIX \<and>
            merkle_root demo_lib (map (Transaction_hash demo_lib) (transactions (chain demo_bc2 ! i)))
              = Inr (merkle_root_field (chain demo_bc2 ! i))"
  proof
    fix i assume "i \<in> {1..<length (chain demo_bc2)}"
    then have "i = 1"
      by (rule only)
    with demo_block1_ok show "prev_hash (chain demo_bc2 ! i) = Block_hash demo_lib (chain demo_bc2 ! (i - 1)) \<and>
            startswith (Block_hash demo_lib (chain demo_bc2 ! i)) DIFFICULTY_PREFIX \<and>
            merkle_root demo_lib (map (Transaction_hash demo_lib) (transactions (chain demo_bc2 ! i)))
              = Inr (merkle_root_field (chain demo_bc2 ! i))"
      unfolding ch2 block_ok_def by simp
  qed
  define bad where "bad = demo_bc2\<lparr>chain := [demo_genesis, demo_block1\<lparr>nonce := 0\<rparr>]\<rparr>"
  have fails: "1 \<le> (1::nat) \<and> 1 < length (chain bad) \<and> \<not> block_ok demo_lib (chain bad) 1"
    using demo_block1_nonce0_fails by (simp add: bad_def)
  have shape: "bad\<lparr>chain := take (1 + 1) (chain bad) @ [demo_block1]\<rparr> =
      demo_bc2\<lparr>chain := [demo_genesis, demo_block1\<lparr>nonce := 0\<rparr>, demo_block1]\<rparr>"
    by (simp add: bad_def)
  from C3_valid_chain_checks [of demo_lib demo_bc0] one
  have "valid_chain demo_lib demo_bc0 = Inr True"
    by blast
  moreover from C3_valid_chain_checks [of demo_lib demo_bc2] checks
  have "valid_chain demo_lib demo_bc2 = Inr True"
    by simp
  moreover from C3_valid_chain_checks [of demo_lib bad] fails
  have "valid_chain demo_lib (bad\<lparr>chain := take (1 + 1) (chain bad) @ [demo_block1]\<rparr>) = Inr False"
    by blast
  ultimately show ?thesis
    by (simp only: shape)
qed


end
